theory Spec2Isabelle
  imports Main "HOL-Library.Word"
begin

unbundle bit_operations_syntax

section \<open>Go's float64: IEEE 754 binary64\<close>

text \<open>
  The package \<open>predicates\<close> computes with Go's \<open>float64\<close> only. A \<open>float64\<close> is the
  64-bit pattern that \<open>math.Float64bits\<close> shows: bit 63 is the sign, bits 62..52 the biased
  exponent, bits 51..0 the fraction. The low 63 bits, read as a number, are called the
  magnitude here; among non-negative floats the order of the magnitudes is the order of the
  values, \<open>0x7FF0000000000000\<close> is infinity and every larger magnitude is a NaN.

  A finite magnitude \<open>k\<close> stands for \<open>mant k * 2 ^ expo k\<close> units of \<open>2 ^ -1074\<close>, the
  smallest positive float. The operations \<open>+\<close>, \<open>-\<close>, \<open>*\<close> and \<open>/\<close> round the exact
  result to the nearest float, ties to the even fraction; every operation is rounded on its
  own (no fused multiply-add). A NaN result is the one quiet NaN \<open>qnan\<close>: Go does not fix the
  payload, and no comparison can see it.
\<close>

type_synonym float64 = "64 word"

definition sign_of :: "float64 \<Rightarrow> bool" where
  "sign_of w = bit w 63"

definition mag_of :: "float64 \<Rightarrow> int" where
  "mag_of w = uint (take_bit 63 w)"

definition mk_float :: "bool \<Rightarrow> int \<Rightarrow> float64" where
  "mk_float s k = word_of_int (if s then k + 2 ^ 63 else k)"

definition inf_mag :: int where
  "inf_mag = 2047 * 2 ^ 52"

definition qnan :: float64 where
  "qnan = 0x7FF8000000000000"

definition is_nan :: "float64 \<Rightarrow> bool" where
  "is_nan w = (inf_mag < mag_of w)"

definition is_inf :: "float64 \<Rightarrow> bool" where
  "is_inf w = (mag_of w = inf_mag)"

text \<open>Go's \<open>x == 0\<close>: true of both zeros, false of a NaN.\<close>

definition is_zero :: "float64 \<Rightarrow> bool" where
  "is_zero w = (mag_of w = 0)"

definition mant :: "int \<Rightarrow> int" where
  "mant k = (if k < 2 ^ 52 then k else 2 ^ 52 + k mod 2 ^ 52)"

definition expo :: "int \<Rightarrow> int" where
  "expo k = max 0 (k div 2 ^ 52 - 1)"

text \<open>The number of binary digits of a positive integer.\<close>

function bitlen :: "int \<Rightarrow> int" where
  "bitlen i = (if i \<le> 0 then 0 else 1 + bitlen (i div 2))"
  by pat_completeness auto
termination by (relation "measure nat") auto

declare bitlen.simps [simp del]

text \<open>The same count read off a binary numeral; it gives \<open>bitlen\<close> its code equations.\<close>

primrec num_len :: "num \<Rightarrow> int" where
  "num_len num.One = 1"
| "num_len (num.Bit0 k) = 1 + num_len k"
| "num_len (num.Bit1 k) = 1 + num_len k"

text \<open>The integer nearest to \<open>a / b\<close>, ties to the even one.\<close>

definition rhe :: "int \<Rightarrow> int \<Rightarrow> int" where
  "rhe a b = (let d = a div b; r = a - d * b in
     if 2 * r < b then d else if b < 2 * r then d + 1 else if d mod 2 = 0 then d else d + 1)"

text \<open>\<open>fl2 p q\<close> is the integer part of the binary logarithm of \<open>p / q\<close>.\<close>

definition fl2 :: "int \<Rightarrow> int \<Rightarrow> int" where
  "fl2 p q = (let d = bitlen p - bitlen q in
     if (if 0 \<le> d then q * 2 ^ nat d \<le> p else q \<le> p * 2 ^ nat (- d)) then d else d - 1)"

text \<open>
  \<open>round_mag p q x\<close> is the magnitude of the float nearest to \<open>(p / q) * 2 ^ x\<close> units:
  the result is a multiple of \<open>2 ^ j\<close> units, where \<open>j\<close> leaves 53 significant bits (or is 0
  in the subnormal range), and everything from \<open>2 ^ 1024\<close> on is infinity.
\<close>

definition round_mag :: "int \<Rightarrow> int \<Rightarrow> int \<Rightarrow> int" where
  "round_mag p q x =
    (if p = 0 then 0
     else let j = max 0 (x + fl2 p q - 52);
              m = (if j \<le> x then rhe (p * 2 ^ nat (x - j)) q
                   else rhe p (q * 2 ^ nat (j - x)))
          in min (j * 2 ^ 52 + m) inf_mag)"

definition fadd :: "float64 \<Rightarrow> float64 \<Rightarrow> float64" where
  "fadd x y =
    (if is_nan x \<or> is_nan y then qnan
     else if is_inf x then (if is_inf y \<and> sign_of x \<noteq> sign_of y then qnan else x)
     else if is_inf y then y
     else if is_zero x then (if is_zero y then mk_float (sign_of x \<and> sign_of y) 0 else y)
     else if is_zero y then x
     else let c = min (expo (mag_of x)) (expo (mag_of y));
              a = mant (mag_of x) * 2 ^ nat (expo (mag_of x) - c);
              b = mant (mag_of y) * 2 ^ nat (expo (mag_of y) - c);
              s = (if sign_of x then - a else a) + (if sign_of y then - b else b)
          in if s = 0 then mk_float False 0
             else mk_float (s < 0) (round_mag \<bar>s\<bar> 1 c))"

definition fneg :: "float64 \<Rightarrow> float64" where
  "fneg w = w XOR 0x8000000000000000"

definition fsub :: "float64 \<Rightarrow> float64 \<Rightarrow> float64" where
  "fsub x y = fadd x (fneg y)"

definition fmul :: "float64 \<Rightarrow> float64 \<Rightarrow> float64" where
  "fmul x y =
    (if is_nan x \<or> is_nan y then qnan
     else if is_inf x \<or> is_inf y then
       (if is_zero x \<or> is_zero y then qnan else mk_float (sign_of x \<noteq> sign_of y) inf_mag)
     else mk_float (sign_of x \<noteq> sign_of y)
            (round_mag (mant (mag_of x) * mant (mag_of y)) 1
               (expo (mag_of x) + expo (mag_of y) - 1074)))"

definition fdiv :: "float64 \<Rightarrow> float64 \<Rightarrow> float64" where
  "fdiv x y =
    (if is_nan x \<or> is_nan y then qnan
     else if is_inf x then
       (if is_inf y then qnan else mk_float (sign_of x \<noteq> sign_of y) inf_mag)
     else if is_inf y then mk_float (sign_of x \<noteq> sign_of y) 0
     else if is_zero y then
       (if is_zero x then qnan else mk_float (sign_of x \<noteq> sign_of y) inf_mag)
     else mk_float (sign_of x \<noteq> sign_of y)
            (round_mag (mant (mag_of x)) (mant (mag_of y))
               (expo (mag_of x) - expo (mag_of y) + 1074)))"

text \<open>\<open>math.Abs\<close> clears the sign bit: \<open>Float64frombits(Float64bits(x) &^ (1 << 63))\<close>.\<close>

definition fabs :: "float64 \<Rightarrow> float64" where
  "fabs w = w AND NOT 0x8000000000000000"

text \<open>Go's \<open>x >= y\<close> and \<open>x == y\<close>: false when an operand is a NaN, and the two zeros are equal.\<close>

definition fkey :: "float64 \<Rightarrow> int" where
  "fkey w = (if sign_of w then - mag_of w else mag_of w)"

definition fge :: "float64 \<Rightarrow> float64 \<Rightarrow> bool" where
  "fge x y = (\<not> is_nan x \<and> \<not> is_nan y \<and> fkey y \<le> fkey x)"

definition feq :: "float64 \<Rightarrow> float64 \<Rightarrow> bool" where
  "feq x y = (\<not> is_nan x \<and> \<not> is_nan y \<and> fkey x = fkey y)"

definition is_finite :: "float64 \<Rightarrow> bool" where
  "is_finite w = (mag_of w < inf_mag)"

text \<open>
  The exact value of a finite float \<open>w\<close> is \<open>units w * 2 ^ -1074\<close>: \<open>units\<close> counts it in
  units of the smallest positive float.
\<close>

definition units :: "float64 \<Rightarrow> int" where
  "units w = (if sign_of w then - 1 else 1) * (mant (mag_of w) * 2 ^ nat (expo (mag_of w)))"

section \<open>The package: \<open>float64pred.go\<close>\<close>

text \<open>
  \<open>macheps = 1.0 / (1 << 52)\<close> is an untyped constant, so \<open>1 - macheps\<close> is computed
  exactly by the compiler; both \<open>2 ^ -52\<close> and \<open>1 - 2 ^ -52\<close> are floats.
  \<open>math.SmallestNonzeroFloat64\<close> is \<open>2 ^ -1074\<close>, the float of magnitude 1.
\<close>

definition macheps :: float64 where
  "macheps = 0x3CB0000000000000"

definition one_minus_macheps :: float64 where
  "one_minus_macheps = 0x3FEFFFFFFFFFFFFE"

definition SmallestNonzeroFloat64 :: float64 where
  "SmallestNonzeroFloat64 = 0x0000000000000001"

record Float64Pred =
  n :: float64
  e :: float64

definition NewFloat64Pred :: "float64 \<Rightarrow> Float64Pred" where
  "NewFloat64Pred v = \<lparr>n = v, e = 0\<rparr>"

definition GetValues :: "Float64Pred \<Rightarrow> float64 \<times> float64" where
  "GetValues p = (n p, e p)"

text \<open>
  Each method first overwrites the receiver's \<open>n\<close> and then adds to its \<open>e\<close>; \<open>x += y\<close> is
  \<open>x = x + (y)\<close>, and \<open>+\<close>, \<open>*\<close>, \<open>/\<close> associate to the left inside \<open>y\<close>.
\<close>

definition AddFloat64 :: "Float64Pred \<Rightarrow> float64 \<Rightarrow> Float64Pred" where
  "AddFloat64 p f =
    (let p = p\<lparr>n := fadd (n p) f\<rparr> in
     if is_zero (n p) then p\<lparr>e := fadd (e p) SmallestNonzeroFloat64\<rparr>
     else p\<lparr>e := fadd (e p) (fdiv (fmul macheps (fabs (n p))) one_minus_macheps)\<rparr>)"

definition AddFloat64Pred :: "Float64Pred \<Rightarrow> Float64Pred \<Rightarrow> Float64Pred" where
  "AddFloat64Pred a b =
    (let a = a\<lparr>n := fadd (n a) (n b)\<rparr> in
     if is_zero (n a) then a\<lparr>e := fadd (e a) (fadd SmallestNonzeroFloat64 (e b))\<rparr>
     else a\<lparr>e := fadd (e a)
            (fadd (fdiv (fmul macheps (fabs (n a))) one_minus_macheps) (e b))\<rparr>)"

definition SubFloat64 :: "Float64Pred \<Rightarrow> float64 \<Rightarrow> Float64Pred" where
  "SubFloat64 p f =
    (let p = p\<lparr>n := fsub (n p) f\<rparr> in
     if is_zero (n p) then p\<lparr>e := fadd (e p) SmallestNonzeroFloat64\<rparr>
     else p\<lparr>e := fadd (e p) (fdiv (fmul macheps (fabs (n p))) one_minus_macheps)\<rparr>)"

definition SubFloat64Pred :: "Float64Pred \<Rightarrow> Float64Pred \<Rightarrow> Float64Pred" where
  "SubFloat64Pred a b =
    (let a = a\<lparr>n := fsub (n a) (n b)\<rparr> in
     if is_zero (n a) then a\<lparr>e := fadd (e a) (fadd SmallestNonzeroFloat64 (e b))\<rparr>
     else a\<lparr>e := fadd (e a)
            (fadd (fdiv (fmul macheps (fabs (n a))) one_minus_macheps) (e b))\<rparr>)"

definition MulFloat64Pred :: "Float64Pred \<Rightarrow> float64 \<Rightarrow> Float64Pred" where
  "MulFloat64Pred p f =
    (let p = p\<lparr>n := fmul (n p) f\<rparr> in
     if is_zero (n p) then
       p\<lparr>e := fadd (e p) (fadd SmallestNonzeroFloat64 (fmul (e p) (fabs f)))\<rparr>
     else
       p\<lparr>e := fadd (e p)
            (fadd (fdiv (fmul macheps (fabs (n p))) one_minus_macheps)
                  (fmul (e p) (fabs f)))\<rparr>)"

definition MulFloat64 :: "Float64Pred \<Rightarrow> Float64Pred \<Rightarrow> Float64Pred" where
  "MulFloat64 a b =
    (let a = a\<lparr>n := fmul (n a) (n b)\<rparr> in
     if is_zero (n a) then
       a\<lparr>e := fadd (e a)
            (fadd (fadd SmallestNonzeroFloat64 (fmul (e a) (fabs (n b))))
                  (fmul (e b) (fabs (n a))))\<rparr>
     else
       a\<lparr>e := fadd (e a)
            (fadd (fadd (fdiv (fmul macheps (fabs (n a))) one_minus_macheps)
                        (fmul (e a) (fabs (n b))))
                  (fmul (e b) (fabs (n a))))\<rparr>)"

section \<open>Notions of the specification\<close>

text \<open>
  Defined from the specification's words, not from the code: the rounding-increment rule
  \<open>increment(v)\<close> is the smallest positive float when \<open>v == 0\<close> and
  \<open>unitRoundoff * |v| / (1 - unitRoundoff)\<close> otherwise, each operation a float64 operation.
\<close>

definition increment :: "float64 \<Rightarrow> float64" where
  "increment v =
    (if is_zero v then SmallestNonzeroFloat64
     else fdiv (fmul macheps (fabs v)) one_minus_macheps)"

text \<open>
  The error bounds as the specification writes them, each \<open>+\<close>, \<open>*\<close> and \<open>/\<close> a float64
  operation, grouped from the left as in Go:
  \<open>a.errorBound + b.errorBound + increment(value')\<close> for AddTracked and SubTracked,
  \<open>s.errorBound * |f| + increment(value')\<close> for MulScalar and
  \<open>a.errorBound*|b.value| + b.errorBound*|a.value| + increment(value')\<close> for MulTracked, with
  the operands' values before the multiplication.
\<close>

definition spec_AddTracked_bound :: "Float64Pred \<Rightarrow> Float64Pred \<Rightarrow> float64" where
  "spec_AddTracked_bound a b = fadd (fadd (e a) (e b)) (increment (fadd (n a) (n b)))"

definition spec_SubTracked_bound :: "Float64Pred \<Rightarrow> Float64Pred \<Rightarrow> float64" where
  "spec_SubTracked_bound a b = fadd (fadd (e a) (e b)) (increment (fsub (n a) (n b)))"

definition spec_MulScalar_bound :: "Float64Pred \<Rightarrow> float64 \<Rightarrow> float64" where
  "spec_MulScalar_bound s f = fadd (fmul (e s) (fabs f)) (increment (fmul (n s) f))"

definition spec_MulTracked_bound :: "Float64Pred \<Rightarrow> Float64Pred \<Rightarrow> float64" where
  "spec_MulTracked_bound a b =
     fadd (fadd (fmul (e a) (fabs (n b))) (fmul (e b) (fabs (n a)))) (increment (fmul (n a) (n b)))"

text \<open>
  The reachable scalars: what \<open>NewFloat64Pred\<close> followed by any finite number of the six
  methods can return. The fields are unexported, so a client of the package holds no other
  scalar (the zero value \<open>Float64Pred{}\<close> is \<open>NewFloat64Pred(0)\<close>).
\<close>

inductive reachable :: "Float64Pred \<Rightarrow> bool" where
  reach_new: "reachable (NewFloat64Pred v)"
| reach_add: "reachable s \<Longrightarrow> reachable (AddFloat64 s f)"
| reach_sub: "reachable s \<Longrightarrow> reachable (SubFloat64 s f)"
| reach_add_pred: "reachable s \<Longrightarrow> reachable b \<Longrightarrow> reachable (AddFloat64Pred s b)"
| reach_sub_pred: "reachable s \<Longrightarrow> reachable b \<Longrightarrow> reachable (SubFloat64Pred s b)"
| reach_mul: "reachable s \<Longrightarrow> reachable (MulFloat64Pred s f)"
| reach_mul_pred: "reachable s \<Longrightarrow> reachable b \<Longrightarrow> reachable (MulFloat64 s b)"

text \<open>
  A sequence of operations applied to one scalar, under the specification's names of the
  six methods; the second operand of a tracked operation is itself a reachable scalar.
\<close>

datatype operation =
    AddScalar float64
  | SubScalar float64
  | AddTracked Float64Pred
  | SubTracked Float64Pred
  | MulScalar float64
  | MulTracked Float64Pred

primrec apply_op :: "Float64Pred \<Rightarrow> operation \<Rightarrow> Float64Pred" where
  "apply_op s (AddScalar f) = AddFloat64 s f"
| "apply_op s (SubScalar f) = SubFloat64 s f"
| "apply_op s (AddTracked b) = AddFloat64Pred s b"
| "apply_op s (SubTracked b) = SubFloat64Pred s b"
| "apply_op s (MulScalar f) = MulFloat64Pred s f"
| "apply_op s (MulTracked b) = MulFloat64 s b"

primrec operand_ok :: "operation \<Rightarrow> bool" where
  "operand_ok (AddScalar f) = True"
| "operand_ok (SubScalar f) = True"
| "operand_ok (AddTracked b) = reachable b"
| "operand_ok (SubTracked b) = reachable b"
| "operand_ok (MulScalar f) = True"
| "operand_ok (MulTracked b) = reachable b"

definition run :: "Float64Pred \<Rightarrow> operation list \<Rightarrow> Float64Pred" where
  "run s ops = foldl apply_op s ops"

section \<open>Evaluation\<close>

text \<open>
  Code equations that read each operand's magnitude once; they are the definitions with the
  tests on the magnitude written out.
\<close>

lemma bitlen_nonpos: "i \<le> 0 \<Longrightarrow> bitlen i = 0"
  by (subst bitlen.simps) simp

lemma bitlen_pos_unfold: "0 < i \<Longrightarrow> bitlen i = 1 + bitlen (i div 2)"
  by (subst bitlen.simps) simp

lemma bitlen_numeral: "bitlen (numeral k) = num_len k"
proof (induction k)
  case One
  show ?case by (simp add: bitlen_pos_unfold bitlen_nonpos)
next
  case (Bit0 k)
  then show ?case by (simp add: bitlen_pos_unfold)
next
  case (Bit1 k)
  then show ?case by (simp add: bitlen_pos_unfold)
qed

lemma bitlen_code [code]:
  "bitlen 0 = 0" "bitlen (Int.Pos k) = num_len k" "bitlen (Int.Neg k) = 0"
  by (simp_all add: bitlen_nonpos bitlen_numeral Int.Pos_def Int.Neg_def)

lemma fadd_code [code]:
  "fadd x y =
    (let kx = mag_of x; ky = mag_of y in
     if inf_mag < kx \<or> inf_mag < ky then qnan
     else if kx = inf_mag then (if ky = inf_mag \<and> sign_of x \<noteq> sign_of y then qnan else x)
     else if ky = inf_mag then y
     else if kx = 0 then (if ky = 0 then mk_float (sign_of x \<and> sign_of y) 0 else y)
     else if ky = 0 then x
     else let ex = expo kx; ey = expo ky; c = min ex ey;
              a = mant kx * 2 ^ nat (ex - c);
              b = mant ky * 2 ^ nat (ey - c);
              s = (if sign_of x then - a else a) + (if sign_of y then - b else b)
          in if s = 0 then mk_float False 0
             else mk_float (s < 0) (round_mag \<bar>s\<bar> 1 c))"
  by (simp add: fadd_def Let_def is_nan_def is_inf_def is_zero_def)

lemma fmul_code [code]:
  "fmul x y =
    (let kx = mag_of x; ky = mag_of y; s = (sign_of x \<noteq> sign_of y) in
     if inf_mag < kx \<or> inf_mag < ky then qnan
     else if kx = inf_mag \<or> ky = inf_mag then
       (if kx = 0 \<or> ky = 0 then qnan else mk_float s inf_mag)
     else mk_float s (round_mag (mant kx * mant ky) 1 (expo kx + expo ky - 1074)))"
  by (simp add: fmul_def Let_def is_nan_def is_inf_def is_zero_def)

lemma fdiv_code [code]:
  "fdiv x y =
    (let kx = mag_of x; ky = mag_of y; s = (sign_of x \<noteq> sign_of y) in
     if inf_mag < kx \<or> inf_mag < ky then qnan
     else if kx = inf_mag then (if ky = inf_mag then qnan else mk_float s inf_mag)
     else if ky = inf_mag then mk_float s 0
     else if ky = 0 then (if kx = 0 then qnan else mk_float s inf_mag)
     else mk_float s (round_mag (mant kx) (mant ky) (expo kx - expo ky + 1074)))"
  by (simp add: fdiv_def Let_def is_nan_def is_inf_def is_zero_def)

section \<open>Rounding\<close>

lemma bitlen_bounds:
  "0 < i \<Longrightarrow> 1 \<le> bitlen i \<and> 2 ^ nat (bitlen i - 1) \<le> i \<and> i < 2 ^ nat (bitlen i)"
proof (induction i rule: bitlen.induct)
  case (1 i)
  show ?case
  proof (cases "i = 1")
    case True
    then show ?thesis by (simp add: bitlen_pos_unfold bitlen_nonpos)
  next
    case False
    with "1.prems" have h: "0 < i div 2" by simp
    from "1.prems" have ni: "\<not> i \<le> 0" by simp
    define b where "b = bitlen (i div 2)"
    from "1.IH" [OF ni h] have IH: "1 \<le> b" "2 ^ nat (b - 1) \<le> i div 2" "i div 2 < 2 ^ nat b"
      by (simp_all add: b_def)
    have bi: "bitlen i = 1 + b" using "1.prems" by (simp add: bitlen_pos_unfold b_def)
    have e1: "nat b = Suc (nat (b - 1))" using IH(1) by simp
    have e2: "nat (1 + b) = Suc (nat b)" using IH(1) by simp
    have "2 * 2 ^ nat (b - 1) \<le> 2 * (i div 2)" using IH(2) by simp
    also have "\<dots> \<le> i" by simp
    finally have lo: "2 ^ nat b \<le> i" by (simp add: e1)
    have "i < 2 * (i div 2 + 1)" by simp
    also have "\<dots> \<le> 2 * 2 ^ nat b" using IH(3) by simp
    finally have hi: "i < 2 ^ nat (1 + b)" by (simp add: e2)
    show ?thesis using IH(1) lo hi by (simp add: bi)
  qed
qed

lemma rhe_one: "rhe a 1 = a"
  by (simp add: rhe_def)

lemma rhe_ge_div: "0 < b \<Longrightarrow> a div b \<le> rhe a b"
  by (simp add: rhe_def Let_def)

lemma rhe_nonneg: "0 \<le> a \<Longrightarrow> 0 < b \<Longrightarrow> 0 \<le> rhe a b"
  using rhe_ge_div [of b a] pos_imp_zdiv_nonneg_iff [of b a] by simp

lemma fl2_one: "0 < s \<Longrightarrow> fl2 s 1 = bitlen s - 1"
  using bitlen_bounds [of s] by (simp add: fl2_def Let_def bitlen_pos_unfold [of 1] bitlen_nonpos)

lemma round_mag_range: "0 \<le> p \<Longrightarrow> 0 < q \<Longrightarrow> 0 \<le> round_mag p q x \<and> round_mag p q x \<le> inf_mag"
proof -
  assume p: "0 \<le> p" and q: "0 < q"
  have i: "0 \<le> inf_mag" by (simp add: inf_mag_def)
  have m: "0 \<le> (if j \<le> x then rhe (p * 2 ^ nat (x - j)) q else rhe p (q * 2 ^ nat (j - x)))" for j
    using p q by (simp add: rhe_nonneg)
  show ?thesis using i m [of "max 0 (x + fl2 p q - 52)"]
    by (simp add: round_mag_def Let_def)
qed

lemma le_div_of_mult_le: "0 < d \<Longrightarrow> a * d \<le> (b::int) \<Longrightarrow> a \<le> b div d"
proof -
  assume d: "0 < d" and h: "a * d \<le> b"
  have "a * d div d \<le> b div d" using h d by (rule zdiv_mono1)
  then show ?thesis using d by simp
qed

lemma round_mag_ge:
  assumes k0: "0 \<le> k" and ki: "k \<le> inf_mag" and c0: "0 \<le> c" and s0: "0 < s"
    and le: "mant k * 2 ^ nat (expo k) \<le> s * 2 ^ nat c"
  shows "k \<le> round_mag s 1 c"
proof -
  define B :: int where "B = 2 ^ 52"
  have Bpos: "0 < B" by (simp add: B_def)
  define bl where "bl = bitlen s"
  have bl: "1 \<le> bl" "2 ^ nat (bl - 1) \<le> s" "s < 2 ^ nat bl"
    using bitlen_bounds [OF s0] by (simp_all add: bl_def)
  define j where "j = max 0 (c + (bl - 1) - 52)"
  define m where "m = (if j \<le> c then rhe (s * 2 ^ nat (c - j)) 1 else rhe s (1 * 2 ^ nat (j - c)))"
  have rm: "round_mag s 1 c = min (j * B + m) inf_mag"
    using s0 by (simp add: round_mag_def Let_def fl2_one j_def m_def bl_def B_def)
  define N where "N = s * 2 ^ nat c"
  have j0: "0 \<le> j" by (simp add: j_def)
  have mge: "N div 2 ^ nat j \<le> m"
  proof (cases "j \<le> c")
    case True
    then have "nat c = nat (c - j) + nat j" using j0 by simp
    then have "N = (s * 2 ^ nat (c - j)) * 2 ^ nat j" by (simp add: N_def power_add mult.assoc)
    then have "N div 2 ^ nat j = s * 2 ^ nat (c - j)" by simp
    then show ?thesis using True by (simp add: m_def rhe_one)
  next
    case False
    then have "nat j = nat (j - c) + nat c" using c0 by simp
    then have "N div 2 ^ nat j = (s * 2 ^ nat c) div (2 ^ nat (j - c) * 2 ^ nat c)"
      by (simp add: N_def power_add)
    also have "\<dots> = s div 2 ^ nat (j - c)" by simp
    finally show ?thesis using False rhe_ge_div [of "2 ^ nat (j - c)" s] by (simp add: m_def)
  qed
  have Nlo: "2 ^ nat (c + bl - 1) \<le> N"
  proof -
    have "nat (c + bl - 1) = nat (bl - 1) + nat c" using c0 bl(1) by simp
    then have "(2::int) ^ nat (c + bl - 1) = 2 ^ nat (bl - 1) * 2 ^ nat c" by (simp add: power_add)
    also have "\<dots> \<le> s * 2 ^ nat c" using bl(2) by (simp add: mult_right_mono)
    finally show ?thesis by (simp add: N_def)
  qed
  have Nhi: "N < 2 ^ nat (c + bl)"
  proof -
    have "nat (c + bl) = nat bl + nat c" using c0 bl(1) by simp
    then have "(2::int) ^ nat (c + bl) = 2 ^ nat bl * 2 ^ nat c" by (simp add: power_add)
    moreover have "s * 2 ^ nat c < 2 ^ nat bl * 2 ^ nat c" using bl(3) by (simp add: mult_strict_right_mono)
    ultimately show ?thesis by (simp add: N_def)
  qed
  have UN: "mant k * 2 ^ nat (expo k) \<le> N" using le by (simp add: N_def)
  define E where "E = k div B"
  define f where "f = k mod B"
  have kEf: "k = E * B + f" by (simp add: E_def f_def)
  have f0: "0 \<le> f" and fB: "f < B" using Bpos by (simp_all add: f_def)
  have E0: "0 \<le> E" using k0 Bpos by (simp add: E_def pos_imp_zdiv_nonneg_iff)
  have small: "k < 2 * B \<Longrightarrow> mant k * 2 ^ nat (expo k) = k"
  proof -
    assume a: "k < 2 * B"
    show ?thesis
    proof (cases "k < B")
      case True
      then have "k div B = 0" using k0 by (simp add: div_pos_pos_trivial)
      then show ?thesis using True by (simp add: mant_def expo_def B_def)
    next
      case False
      have "1 \<le> E"
      proof (rule ccontr)
        assume "\<not> 1 \<le> E"
        then have "E \<le> 0" by simp
        then have "E * B \<le> 0 * B" using Bpos by (simp only: mult_right_mono)
        then show False using False kEf fB by simp
      qed
      moreover have "E \<le> 1"
      proof (rule ccontr)
        assume "\<not> E \<le> 1"
        then have "2 \<le> E" by simp
        then have "2 * B \<le> E * B" using Bpos by (simp only: mult_right_mono)
        then show False using a kEf f0 by simp
      qed
      ultimately have "E = 1" by simp
      then have d1: "k div 2 ^ 52 = 1" by (simp add: E_def B_def)
      have "k = B + f" using kEf \<open>E = 1\<close> by simp
      then have m1: "2 ^ 52 + k mod 2 ^ 52 = k" unfolding f_def B_def by (rule sym)
      have nk: "\<not> k < 2 ^ 52" using False by (simp add: B_def)
      show ?thesis unfolding mant_def expo_def using d1 m1 nk by simp
    qed
  qed
  have big: "2 * B \<le> k \<Longrightarrow> mant k * 2 ^ nat (expo k) = (B + f) * 2 ^ nat (E - 1) \<and> 2 \<le> E"
  proof -
    assume a: "2 * B \<le> k"
    have "2 \<le> E"
    proof (rule ccontr)
      assume "\<not> 2 \<le> E"
      then have "E \<le> 1" by simp
      then have "E * B \<le> 1 * B" using Bpos by (simp only: mult_right_mono)
      then show False using a kEf fB by simp
    qed
    moreover have "\<not> k < 2 ^ 52" using a Bpos by (simp add: B_def)
    ultimately show ?thesis by (simp add: mant_def expo_def B_def E_def f_def)
  qed
  show ?thesis
  proof (cases "c + (bl - 1) - 52 \<le> 0")
    case True
    then have jz: "j = 0" by (simp add: j_def)
    have "nat (c + bl) \<le> 53" using True by simp
    then have "(2::int) ^ nat (c + bl) \<le> 2 ^ 53" by (simp only: power_increasing one_le_numeral)
    then have N2B: "N < 2 * B" using Nhi by (simp add: B_def)
    have km: "k \<le> N"
    proof (cases "k < 2 * B")
      case True
      then show ?thesis using small UN by simp
    next
      case False
      then have b: "mant k * 2 ^ nat (expo k) = (B + f) * 2 ^ nat (E - 1)" "2 \<le> E" using big by simp_all
      have "nat (E - 1) = Suc (nat (E - 2))" using b(2) by simp
      then have "(2::int) ^ nat (E - 1) = 2 * 2 ^ nat (E - 2)" by simp
      then have "(2::int) \<le> 2 ^ nat (E - 1)" by simp
      then have "B * 2 \<le> (B + f) * 2 ^ nat (E - 1)" using f0 Bpos by (intro mult_mono) simp_all
      then show ?thesis using b(1) UN N2B by simp
    qed
    have "N \<le> m" using mge jz by simp
    then show ?thesis using rm km ki jz by simp
  next
    case False
    then have jv: "j = c + bl - 53" by (simp add: j_def)
    have j1: "1 \<le> j" using False jv by simp
    have "nat (c + bl - 1) = 52 + nat j" using jv j1 by simp
    then have "(2::int) ^ nat (c + bl - 1) = B * 2 ^ nat j" by (simp add: power_add B_def)
    then have "B * 2 ^ nat j \<le> N" using Nlo by simp
    then have "B \<le> N div 2 ^ nat j" by (intro le_div_of_mult_le) simp_all
    then have mB: "B \<le> m" using mge by simp
    have Nhi': "N < 2 * B * 2 ^ nat j"
    proof -
      have "nat (c + bl) = 53 + nat j" using jv j1 by simp
      then have "(2::int) ^ nat (c + bl) = 2 * B * 2 ^ nat j" by (simp add: power_add B_def)
      then show ?thesis using Nhi by simp
    qed
    have kle: "k \<le> j * B + m"
    proof (cases "E \<le> j")
      case True
      then have "E * B \<le> j * B" using Bpos by (simp only: mult_right_mono)
      then show ?thesis using kEf fB mB by simp
    next
      case False
      then have Ej: "j + 1 \<le> E" by simp
      then have "2 \<le> E" using j1 by simp
      then have "2 * B \<le> E * B" using Bpos by (simp only: mult_right_mono)
      then have "2 * B \<le> k" using kEf f0 by simp
      then have b: "mant k * 2 ^ nat (expo k) = (B + f) * 2 ^ nat (E - 1)" using big by simp
      have "B * 2 ^ nat (E - 1) \<le> (B + f) * 2 ^ nat (E - 1)" using f0 by (simp add: mult_right_mono)
      also have "\<dots> \<le> N" using b UN by simp
      also have "\<dots> < 2 * B * 2 ^ nat j" by (rule Nhi')
      finally have "(2::int) ^ nat (E - 1) < 2 * 2 ^ nat j" using Bpos by simp
      then have "(2::int) ^ nat (E - 1) < 2 ^ Suc (nat j)" by simp
      then have "nat (E - 1) < Suc (nat j)" by (simp only: power_strict_increasing_iff one_less_numeral_iff semiring_norm)
      then have EE: "E = j + 1" using Ej j1 by simp
      have "(B + f) * 2 ^ nat j \<le> N" using b UN EE by simp
      then have "B + f \<le> N div 2 ^ nat j" by (intro le_div_of_mult_le) simp_all
      then have "B + f \<le> m" using mge by simp
      then show ?thesis using kEf EE by (simp add: algebra_simps)
    qed
    then show ?thesis using rm ki by simp
  qed
qed

section \<open>Bit patterns\<close>

lemma mag_of_range: "0 \<le> mag_of w \<and> mag_of w < 2 ^ 63"
  using take_bit_int_less_exp [of 63 "uint w"] by (simp add: mag_of_def unsigned_take_bit_eq)

lemma mag_of_word_of_int: "mag_of (word_of_int i) = i mod 2 ^ 63"
proof -
  have "mag_of (word_of_int i) = take_bit 63 (take_bit 64 i)"
    unfolding mag_of_def unsigned_take_bit_eq uint_word_of_int_eq by simp
  also have "\<dots> = take_bit 63 i" by simp
  finally show ?thesis by (simp only: take_bit_eq_mod)
qed

lemma sign_of_word_of_int: "sign_of (word_of_int i) = odd (i div 2 ^ 63)"
  unfolding sign_of_def bit_word_of_int_iff
  by (simp add: bit_iff_odd)

lemma mag_of_mk_float: "0 \<le> k \<Longrightarrow> k < 2 ^ 63 \<Longrightarrow> mag_of (mk_float s k) = k"
  unfolding mk_float_def mag_of_word_of_int by (cases s) simp_all

lemma sign_of_mk_float: "0 \<le> k \<Longrightarrow> k < 2 ^ 63 \<Longrightarrow> sign_of (mk_float s k) = s"
proof -
  assume k: "0 \<le> k" "k < 2 ^ 63"
  then have "k div 2 ^ 63 = 0" by (simp only: div_pos_pos_trivial)
  moreover have "(k + 2 ^ 63) div 2 ^ 63 = k div 2 ^ 63 + 1" by (rule div_add_self2) simp
  ultimately show ?thesis unfolding mk_float_def sign_of_word_of_int by (cases s) simp_all
qed

lemma sign_bit_const: "(0x8000000000000000 :: 64 word) = push_bit 63 1"
  by simp

lemma bit_sign_bit: "bit (0x8000000000000000 :: 64 word) m = (m = 63)"
  unfolding sign_bit_const bit_push_bit_iff by (auto simp: bit_1_iff)

lemma sign_of_fabs: "sign_of (fabs w) = False"
  unfolding sign_of_def fabs_def bit_and_iff bit_not_iff bit_sign_bit by simp

lemma mag_of_fabs: "mag_of (fabs w) = mag_of w"
proof -
  have "take_bit 63 (w AND NOT 0x8000000000000000) = take_bit 63 w"
    by (rule bit_word_eqI) (simp only: bit_take_bit_iff bit_and_iff bit_not_iff bit_sign_bit, auto)
  then show ?thesis unfolding mag_of_def fabs_def by simp
qed

lemma inf_mag_bound: "0 < inf_mag \<and> inf_mag < 2 ^ 63"
  by (simp add: inf_mag_def)

lemma mk_float_le_inf:
  "0 \<le> k \<Longrightarrow> k \<le> inf_mag \<Longrightarrow> mag_of (mk_float s k) = k \<and> sign_of (mk_float s k) = s"
  using inf_mag_bound by (simp add: mag_of_mk_float sign_of_mk_float)

lemma is_nan_qnan: "is_nan qnan"
  by (simp add: is_nan_def qnan_def mag_of_def inf_mag_def)

lemma sign_of_qnan: "\<not> sign_of qnan"
  by (simp add: sign_of_def qnan_def)

lemma mag_of_zero: "mag_of 0 = 0"
  by (simp add: mag_of_def)

lemma sign_of_zero: "\<not> sign_of 0"
  by (simp add: sign_of_def)

lemma mk_float_zero: "mk_float False 0 = 0"
  by (simp add: mk_float_def)

lemma round_mag_float:
  "0 \<le> p \<Longrightarrow> 0 < q \<Longrightarrow>
   mag_of (mk_float s (round_mag p q x)) = round_mag p q x \<and>
   sign_of (mk_float s (round_mag p q x)) = s \<and> \<not> is_nan (mk_float s (round_mag p q x))"
  using round_mag_range [of p q x] mk_float_le_inf [of "round_mag p q x" s]
  by (simp add: is_nan_def)

lemma mant_nonneg: "0 \<le> k \<Longrightarrow> 0 \<le> mant k"
  by (simp add: mant_def)

lemma mant_pos: "0 < k \<Longrightarrow> 0 < mant k"
proof -
  assume k: "0 < k"
  have "0 \<le> k mod 2 ^ 52" by simp
  then show ?thesis using k unfolding mant_def by (simp add: add_pos_nonneg)
qed

lemma expo_nonneg: "0 \<le> expo k"
  by (simp add: expo_def)

text \<open>A result that is not a NaN has its sign bit clear when the operands have.\<close>

lemma nn_fadd:
  assumes "is_nan x \<or> \<not> sign_of x" and "is_nan y \<or> \<not> sign_of y"
  shows "is_nan (fadd x y) \<or> \<not> sign_of (fadd x y)"
proof (cases "is_nan x \<or> is_nan y")
  case True
  then show ?thesis by (simp add: fadd_def is_nan_qnan)
next
  case False
  then have sx: "\<not> sign_of x" and sy: "\<not> sign_of y" using assms by simp_all
  define c where "c = min (expo (mag_of x)) (expo (mag_of y))"
  define a where "a = mant (mag_of x) * 2 ^ nat (expo (mag_of x) - c)"
  define b where "b = mant (mag_of y) * 2 ^ nat (expo (mag_of y) - c)"
  have a0: "0 \<le> a" and b0: "0 \<le> b"
    using mag_of_range [of x] mag_of_range [of y] by (simp_all add: a_def b_def mant_nonneg)
  have r: "\<not> sign_of (mk_float False (round_mag \<bar>a + b\<bar> 1 c))"
    using round_mag_float [of "\<bar>a + b\<bar>" 1 False c] by simp
  have ab: "\<not> a + b < 0" using a0 b0 by simp
  show ?thesis using False sx sy r ab
    by (simp add: fadd_def Let_def mk_float_zero sign_of_zero c_def [symmetric] a_def [symmetric] b_def [symmetric])
qed

lemma nn_fmul:
  assumes "is_nan x \<or> \<not> sign_of x" and "is_nan y \<or> \<not> sign_of y"
  shows "is_nan (fmul x y) \<or> \<not> sign_of (fmul x y)"
proof (cases "is_nan x \<or> is_nan y")
  case True
  then show ?thesis by (simp add: fmul_def is_nan_qnan)
next
  case False
  then have sx: "\<not> sign_of x" and sy: "\<not> sign_of y" using assms by simp_all
  have p: "0 \<le> mant (mag_of x) * mant (mag_of y)"
    using mag_of_range [of x] mag_of_range [of y] by (simp add: mant_nonneg)
  have i: "\<not> sign_of (mk_float False inf_mag)" using mk_float_le_inf [of inf_mag False] inf_mag_bound by simp
  show ?thesis using False sx sy i round_mag_float [OF p, of 1 False]
    by (simp add: fmul_def is_nan_qnan)
qed

lemma nn_fdiv:
  assumes "is_nan x \<or> \<not> sign_of x" and "is_nan y \<or> \<not> sign_of y"
  shows "is_nan (fdiv x y) \<or> \<not> sign_of (fdiv x y)"
proof (cases "is_nan x \<or> is_nan y")
  case True
  then show ?thesis by (simp add: fdiv_def is_nan_qnan)
next
  case False
  then have sx: "\<not> sign_of x" and sy: "\<not> sign_of y" using assms by simp_all
  have p: "0 \<le> mant (mag_of x)" using mag_of_range [of x] by (simp add: mant_nonneg)
  have i: "\<not> sign_of (mk_float False inf_mag)" using mk_float_le_inf [of inf_mag False] inf_mag_bound by simp
  have q: "\<not> is_zero y \<Longrightarrow> 0 < mant (mag_of y)"
    using mag_of_range [of y] by (simp add: is_zero_def mant_pos)
  show ?thesis
  proof (cases "is_zero y")
    case True
    then show ?thesis using False sx sy i by (simp add: fdiv_def is_nan_qnan mk_float_zero sign_of_zero)
  next
    case nz: False
    show ?thesis using False sx sy i nz round_mag_float [OF p q [OF nz], of False]
      by (simp add: fdiv_def is_nan_qnan mk_float_zero sign_of_zero)
  qed
qed

section \<open>Order\<close>

lemma fge_refl: "\<not> is_nan x \<Longrightarrow> fge x x"
  by (simp add: fge_def)

lemma fge_trans: "fge x y \<Longrightarrow> fge y z \<Longrightarrow> fge x z"
  by (simp add: fge_def)

lemma not_nan_zero: "\<not> is_nan 0"
  by (simp add: is_nan_def mag_of_zero inf_mag_def)

lemma fadd_ge:
  assumes "is_nan x \<or> \<not> sign_of x" and "is_nan y \<or> \<not> sign_of y"
  shows "is_nan (fadd x y) \<or> (fge (fadd x y) x \<and> fge (fadd x y) y)"
proof (cases "is_nan x \<or> is_nan y")
  case True
  then show ?thesis by (simp add: fadd_def is_nan_qnan)
next
  case False
  then have nx: "\<not> is_nan x" and ny: "\<not> is_nan y" by simp_all
  have sx: "\<not> sign_of x" and sy: "\<not> sign_of y" using assms nx ny by simp_all
  have kx: "0 \<le> mag_of x" "mag_of x \<le> inf_mag" using mag_of_range [of x] nx by (simp_all add: is_nan_def)
  have ky: "0 \<le> mag_of y" "mag_of y \<le> inf_mag" using mag_of_range [of y] ny by (simp_all add: is_nan_def)
  show ?thesis
  proof (cases "is_inf x \<or> is_inf y \<or> is_zero x \<or> is_zero y")
    case True
    then show ?thesis using nx ny sx sy kx ky
      by (auto simp add: fadd_def fge_def fkey_def is_inf_def is_zero_def mk_float_zero
            sign_of_zero mag_of_zero not_nan_zero)
  next
    case fin: False
    define c where "c = min (expo (mag_of x)) (expo (mag_of y))"
    define a where "a = mant (mag_of x) * 2 ^ nat (expo (mag_of x) - c)"
    define b where "b = mant (mag_of y) * 2 ^ nat (expo (mag_of y) - c)"
    have c0: "0 \<le> c" by (simp add: c_def expo_nonneg)
    have cx: "c \<le> expo (mag_of x)" and cy: "c \<le> expo (mag_of y)" by (simp_all add: c_def)
    have a0: "0 < a" using fin kx by (simp add: a_def is_zero_def mant_pos)
    have b0: "0 < b" using fin ky by (simp add: b_def is_zero_def mant_pos)
    have s0: "0 < a + b" using a0 b0 by simp
    have "nat (expo (mag_of x)) = nat (expo (mag_of x) - c) + nat c" using c0 cx by simp
    then have ua: "mant (mag_of x) * 2 ^ nat (expo (mag_of x)) = a * 2 ^ nat c"
      by (simp add: a_def power_add)
    have "nat (expo (mag_of y)) = nat (expo (mag_of y) - c) + nat c" using c0 cy by simp
    then have ub: "mant (mag_of y) * 2 ^ nat (expo (mag_of y)) = b * 2 ^ nat c"
      by (simp add: b_def power_add)
    have "a * 2 ^ nat c \<le> (a + b) * 2 ^ nat c" using b0 by (simp add: mult_right_mono)
    then have gx: "mag_of x \<le> round_mag (a + b) 1 c"
      using round_mag_ge [OF kx c0 s0] ua by simp
    have "b * 2 ^ nat c \<le> (a + b) * 2 ^ nat c" using a0 by (simp add: mult_right_mono)
    then have gy: "mag_of y \<le> round_mag (a + b) 1 c"
      using round_mag_ge [OF ky c0 s0] ub by simp
    have r: "fadd x y = mk_float False (round_mag (a + b) 1 c)"
      using nx ny fin sx sy s0
      by (simp add: fadd_def Let_def c_def [symmetric] a_def [symmetric] b_def [symmetric])
    have m: "mag_of (mk_float False (round_mag (a + b) 1 c)) = round_mag (a + b) 1 c"
      "\<not> sign_of (mk_float False (round_mag (a + b) 1 c))"
      "\<not> is_nan (mk_float False (round_mag (a + b) 1 c))"
      using round_mag_float [of "a + b" 1 False c] s0 by simp_all
    show ?thesis using nx ny sx sy gx gy m by (simp add: r fge_def fkey_def)
  qed
qed

lemma fadd_zero_right: "\<not> is_nan x \<Longrightarrow> \<not> is_nan (fadd x 0) \<and> fkey (fadd x 0) = fkey x"
  by (auto simp add: fadd_def not_nan_zero is_inf_def is_zero_def mag_of_zero inf_mag_def
        sign_of_zero mk_float_zero fkey_def)

lemma fadd_zero_left: "\<not> is_nan x \<Longrightarrow> \<not> is_nan (fadd 0 x) \<and> fkey (fadd 0 x) = fkey x"
  by (auto simp add: fadd_def not_nan_zero is_inf_def is_zero_def mag_of_zero inf_mag_def
        sign_of_zero mk_float_zero fkey_def)

section \<open>Zero operands and the increment\<close>

lemma zero_float: "mag_of x = 0 \<Longrightarrow> \<not> sign_of x \<Longrightarrow> x = 0"
proof -
  assume m: "mag_of x = 0" and s: "\<not> sign_of x"
  have t: "take_bit 63 x = 0" using m by (simp add: mag_of_def uint_0_iff)
  show ?thesis
  proof (rule bit_word_eqI)
    fix m assume "m < LENGTH(64)"
    then have "m < 63 \<or> m = 63" by auto
    then show "bit x m = bit (0 :: 64 word) m"
    proof
      assume a: "m < 63"
      have "bit (take_bit 63 x) m = bit x m" using a by (simp add: bit_take_bit_iff)
      then show ?thesis using t by simp
    next
      assume "m = 63"
      then show ?thesis using s by (simp add: sign_of_def)
    qed
  qed
qed

lemma fadd_zero_left_id:
  assumes "x = qnan \<or> (\<not> is_nan x \<and> \<not> sign_of x)"
  shows "fadd 0 x = x"
proof (cases "x = qnan")
  case True
  then show ?thesis by (simp add: fadd_def is_nan_qnan)
next
  case False
  then have nx: "\<not> is_nan x" and sx: "\<not> sign_of x" using assms by simp_all
  show ?thesis
  proof (cases "is_zero x")
    case True
    then have "x = 0" using sx by (simp add: is_zero_def zero_float)
    then show ?thesis by (simp add: fadd_def not_nan_zero is_inf_def is_zero_def mag_of_zero inf_mag_def sign_of_zero mk_float_zero)
  next
    case False
    then show ?thesis using nx by (simp add: fadd_def not_nan_zero is_inf_def is_zero_def mag_of_zero inf_mag_def)
  qed
qed

lemma fadd_zero_left_val: "\<not> is_nan x \<Longrightarrow> \<not> is_zero x \<Longrightarrow> fadd 0 x = x"
  by (simp add: fadd_def not_nan_zero is_inf_def is_zero_def mag_of_zero inf_mag_def)

lemma nan_fabs: "is_nan (fabs x) = is_nan x"
  by (simp add: is_nan_def mag_of_fabs)

lemma fmul_nan_right: "is_nan y \<Longrightarrow> fmul x y = qnan"
  by (simp add: fmul_def)

lemma fdiv_canonical:
  assumes "is_nan x \<or> \<not> sign_of x" and "is_nan y \<or> \<not> sign_of y"
  shows "fdiv x y = qnan \<or> (\<not> is_nan (fdiv x y) \<and> \<not> sign_of (fdiv x y))"
proof (cases "is_nan (fdiv x y)")
  case False
  then show ?thesis using nn_fdiv [OF assms] by simp
next
  case True
  have i: "\<not> is_nan (mk_float s inf_mag)" for s
    using mk_float_le_inf [of inf_mag s] inf_mag_bound by (simp add: is_nan_def)
  have z: "\<not> is_nan (mk_float s 0)" for s
    using mk_float_le_inf [of 0 s] inf_mag_bound by (simp add: is_nan_def)
  have r: "\<not> is_zero y \<Longrightarrow> \<not> is_nan (mk_float s (round_mag (mant (mag_of x)) (mant (mag_of y)) t))" for s t
    using round_mag_float [of "mant (mag_of x)" "mant (mag_of y)" s t] mag_of_range [of x] mag_of_range [of y]
    by (simp add: is_zero_def mant_pos mant_nonneg)
  show ?thesis using True i z r
    by (auto simp add: fdiv_def split: if_splits)
qed

lemma nn_macheps: "\<not> is_nan macheps \<and> \<not> sign_of macheps"
  by (simp add: macheps_def is_nan_def sign_of_def mag_of_def inf_mag_def)

lemma nn_one_minus_macheps: "\<not> is_nan one_minus_macheps \<and> \<not> sign_of one_minus_macheps"
  by (simp add: one_minus_macheps_def is_nan_def sign_of_def mag_of_def inf_mag_def)

lemma nn_smallest: "\<not> is_nan SmallestNonzeroFloat64 \<and> \<not> sign_of SmallestNonzeroFloat64"
  by (simp add: SmallestNonzeroFloat64_def is_nan_def sign_of_def mag_of_def inf_mag_def)

lemma nn_increment: "is_nan (increment v) \<or> \<not> sign_of (increment v)"
  using nn_fdiv [of "fmul macheps (fabs v)" one_minus_macheps]
    nn_fmul [of macheps "fabs v"] nn_macheps nn_one_minus_macheps nn_smallest sign_of_fabs [of v]
  by (simp add: increment_def)

lemma increment_canonical: "increment v = qnan \<or> (\<not> is_nan (increment v) \<and> \<not> sign_of (increment v))"
  using fdiv_canonical [of "fmul macheps (fabs v)" one_minus_macheps]
    nn_fmul [of macheps "fabs v"] nn_macheps nn_one_minus_macheps nn_smallest sign_of_fabs [of v]
  by (simp add: increment_def)

lemma AddFloat64_eq:
  "AddFloat64 s f = \<lparr>n = fadd (n s) f, e = fadd (e s) (increment (fadd (n s) f))\<rparr>"
  by (simp add: AddFloat64_def increment_def Let_def)

lemma SubFloat64_eq:
  "SubFloat64 s f = \<lparr>n = fsub (n s) f, e = fadd (e s) (increment (fsub (n s) f))\<rparr>"
  by (simp add: SubFloat64_def increment_def Let_def)

lemma AddFloat64Pred_eq:
  "AddFloat64Pred a b =
    \<lparr>n = fadd (n a) (n b), e = fadd (e a) (fadd (increment (fadd (n a) (n b))) (e b))\<rparr>"
  by (simp add: AddFloat64Pred_def increment_def Let_def)

lemma SubFloat64Pred_eq:
  "SubFloat64Pred a b =
    \<lparr>n = fsub (n a) (n b), e = fadd (e a) (fadd (increment (fsub (n a) (n b))) (e b))\<rparr>"
  by (simp add: SubFloat64Pred_def increment_def Let_def)

lemma MulFloat64Pred_eq:
  "MulFloat64Pred s f =
    \<lparr>n = fmul (n s) f,
     e = fadd (e s) (fadd (increment (fmul (n s) f)) (fmul (e s) (fabs f)))\<rparr>"
  by (simp add: MulFloat64Pred_def increment_def Let_def)

lemma MulFloat64_eq:
  "MulFloat64 a b =
    \<lparr>n = fmul (n a) (n b),
     e = fadd (e a) (fadd (fadd (increment (fmul (n a) (n b))) (fmul (e a) (fabs (n b))))
                          (fmul (e b) (fabs (fmul (n a) (n b)))))\<rparr>"
  by (simp add: MulFloat64_def increment_def Let_def)

lemma add_zero_scalar:
  assumes "\<not> is_zero f"
  shows "e (AddFloat64 (NewFloat64Pred 0) f) = fdiv (fmul macheps (fabs f)) one_minus_macheps"
proof -
  define v where "v = fadd 0 f"
  have nz: "\<not> is_zero v"
  proof (cases "is_nan f")
    case True
    then have "v = qnan" by (simp add: v_def fadd_def)
    then show ?thesis using is_nan_qnan by (simp add: is_zero_def is_nan_def inf_mag_def)
  next
    case False
    then show ?thesis using assms by (simp add: v_def fadd_zero_left_val)
  qed
  have ab: "fmul macheps (fabs v) = fmul macheps (fabs f)"
  proof (cases "is_nan f")
    case True
    then have "is_nan (fabs v)" "is_nan (fabs f)" using is_nan_qnan by (simp_all add: v_def fadd_def nan_fabs)
    then show ?thesis by (simp add: fmul_nan_right)
  next
    case False
    then show ?thesis using assms by (simp add: v_def fadd_zero_left_val)
  qed
  have iv: "increment v = fdiv (fmul macheps (fabs f)) one_minus_macheps"
    using nz ab by (simp add: increment_def)
  have "fadd 0 (increment v) = increment v"
    using increment_canonical [of v] by (intro fadd_zero_left_id) simp
  then show ?thesis by (simp add: AddFloat64_eq NewFloat64Pred_def v_def [symmetric] iv)
qed

section \<open>Reachable scalars\<close>

lemma nn_zero: "is_nan (0 :: float64) \<or> \<not> sign_of 0"
  by (simp add: sign_of_zero)

lemma nn_fabs: "is_nan (fabs v) \<or> \<not> sign_of (fabs v)"
  by (simp add: sign_of_fabs)

lemma nn_scalar_term:
  assumes "is_nan x \<or> \<not> sign_of x"
  shows "is_nan (fadd (increment v) (fmul x (fabs f))) \<or> \<not> sign_of (fadd (increment v) (fmul x (fabs f)))"
  by (intro nn_fadd nn_fmul nn_increment nn_fabs assms)

lemma nn_tracked_term:
  assumes "is_nan x \<or> \<not> sign_of x" and "is_nan y \<or> \<not> sign_of y"
  shows "is_nan (fadd (fadd (increment v) (fmul x (fabs f))) (fmul y (fabs g))) \<or>
         \<not> sign_of (fadd (fadd (increment v) (fmul x (fabs f))) (fmul y (fabs g)))"
  by (intro nn_fadd nn_fmul nn_increment nn_fabs assms)

lemma reachable_sign:
  "reachable s \<Longrightarrow> is_nan (e s) \<or> \<not> sign_of (e s)"
proof (induction rule: reachable.induct)
  case (reach_new v)
  show ?case by (simp add: NewFloat64Pred_def sign_of_zero)
next
  case (reach_add s f)
  show ?case unfolding AddFloat64_eq using nn_fadd [OF reach_add.IH nn_increment] by simp
next
  case (reach_sub s f)
  show ?case unfolding SubFloat64_eq using nn_fadd [OF reach_sub.IH nn_increment] by simp
next
  case (reach_add_pred s b)
  show ?case unfolding AddFloat64Pred_eq
    using nn_fadd [OF reach_add_pred.IH(1) nn_fadd [OF nn_increment reach_add_pred.IH(2)]] by simp
next
  case (reach_sub_pred s b)
  show ?case unfolding SubFloat64Pred_eq
    using nn_fadd [OF reach_sub_pred.IH(1) nn_fadd [OF nn_increment reach_sub_pred.IH(2)]] by simp
next
  case (reach_mul s f)
  show ?case unfolding MulFloat64Pred_eq
    using nn_fadd [OF reach_mul.IH nn_scalar_term [OF reach_mul.IH]] by simp
next
  case (reach_mul_pred s b)
  show ?case unfolding MulFloat64_eq
    using nn_fadd [OF reach_mul_pred.IH(1) nn_tracked_term [OF reach_mul_pred.IH(1) reach_mul_pred.IH(2)]]
    by simp
qed

lemma step_ge_scalar:
  assumes s: "is_nan (e s) \<or> \<not> sign_of (e s)"
  shows "is_nan (e (AddFloat64 s f)) \<or> fge (e (AddFloat64 s f)) (e s)"
    and "is_nan (e (SubFloat64 s f)) \<or> fge (e (SubFloat64 s f)) (e s)"
    and "is_nan (e (MulFloat64Pred s f)) \<or> fge (e (MulFloat64Pred s f)) (e s)"
proof -
  show "is_nan (e (AddFloat64 s f)) \<or> fge (e (AddFloat64 s f)) (e s)"
    unfolding AddFloat64_eq using fadd_ge [OF s nn_increment] by auto
  show "is_nan (e (SubFloat64 s f)) \<or> fge (e (SubFloat64 s f)) (e s)"
    unfolding SubFloat64_eq using fadd_ge [OF s nn_increment] by auto
  show "is_nan (e (MulFloat64Pred s f)) \<or> fge (e (MulFloat64Pred s f)) (e s)"
    unfolding MulFloat64Pred_eq using fadd_ge [OF s nn_scalar_term [OF s]] by auto
qed

lemma step_ge_tracked:
  assumes s: "is_nan (e s) \<or> \<not> sign_of (e s)" and b: "is_nan (e b) \<or> \<not> sign_of (e b)"
  shows "is_nan (e (AddFloat64Pred s b)) \<or> fge (e (AddFloat64Pred s b)) (e s)"
    and "is_nan (e (SubFloat64Pred s b)) \<or> fge (e (SubFloat64Pred s b)) (e s)"
    and "is_nan (e (MulFloat64 s b)) \<or> fge (e (MulFloat64 s b)) (e s)"
proof -
  show "is_nan (e (AddFloat64Pred s b)) \<or> fge (e (AddFloat64Pred s b)) (e s)"
    unfolding AddFloat64Pred_eq using fadd_ge [OF s nn_fadd [OF nn_increment b]] by auto
  show "is_nan (e (SubFloat64Pred s b)) \<or> fge (e (SubFloat64Pred s b)) (e s)"
    unfolding SubFloat64Pred_eq using fadd_ge [OF s nn_fadd [OF nn_increment b]] by auto
  show "is_nan (e (MulFloat64 s b)) \<or> fge (e (MulFloat64 s b)) (e s)"
    unfolding MulFloat64_eq using fadd_ge [OF s nn_tracked_term [OF s b]] by auto
qed

lemma apply_op_reachable: "reachable s \<Longrightarrow> operand_ok op \<Longrightarrow> reachable (apply_op s op)"
  by (cases op) (auto intro: reachable.intros)

lemma apply_op_ge:
  assumes "reachable s" and "operand_ok op"
  shows "is_nan (e (apply_op s op)) \<or> fge (e (apply_op s op)) (e s)"
proof (cases op)
  case (AddScalar f)
  then show ?thesis using step_ge_scalar(1) [OF reachable_sign [OF assms(1)]] by simp
next
  case (SubScalar f)
  then show ?thesis using step_ge_scalar(2) [OF reachable_sign [OF assms(1)]] by simp
next
  case (AddTracked b)
  then show ?thesis using assms step_ge_tracked(1) [OF reachable_sign reachable_sign, of s b] by simp
next
  case (SubTracked b)
  then show ?thesis using assms step_ge_tracked(2) [OF reachable_sign reachable_sign, of s b] by simp
next
  case (MulScalar f)
  then show ?thesis using step_ge_scalar(3) [OF reachable_sign [OF assms(1)]] by simp
next
  case (MulTracked b)
  then show ?thesis using assms step_ge_tracked(3) [OF reachable_sign reachable_sign, of s b] by simp
qed

lemma run_ge:
  "reachable s \<Longrightarrow> list_all operand_ok ops \<Longrightarrow>
   is_nan (e (run s ops)) \<or> fge (e (run s ops)) (e s)"
proof (induction ops arbitrary: s)
  case Nil
  then show ?case by (simp add: run_def fge_def)
next
  case (Cons op ops)
  have r: "reachable (apply_op s op)" using Cons.prems by (simp add: apply_op_reachable)
  have st: "is_nan (e (apply_op s op)) \<or> fge (e (apply_op s op)) (e s)"
    using Cons.prems by (simp add: apply_op_ge)
  have ih: "is_nan (e (run (apply_op s op) ops)) \<or> fge (e (run (apply_op s op) ops)) (e (apply_op s op))"
    using Cons.IH [OF r] Cons.prems by simp
  have "run s (op # ops) = run (apply_op s op) ops" by (simp add: run_def)
  then show ?case using st ih by (auto simp add: fge_def)
qed

section \<open>Zero factors\<close>

lemma fadd_nan_right: "is_nan y \<Longrightarrow> fadd x y = qnan"
  by (simp add: fadd_def)

lemma fadd_nan_left: "is_nan x \<Longrightarrow> fadd x y = qnan"
  by (simp add: fadd_def)

lemma mant_zero: "mant 0 = 0"
  by (simp add: mant_def)

lemma round_mag_zero: "round_mag 0 q x = 0"
  by (simp add: round_mag_def)

lemma fmul_zero_left: "\<not> is_nan (fmul 0 y) \<Longrightarrow> \<not> sign_of y \<Longrightarrow> fmul 0 y = 0"
  using is_nan_qnan
  by (auto simp add: fmul_def is_zero_def mag_of_zero sign_of_zero mant_zero round_mag_zero
        mk_float_zero split: if_splits)

lemma mag_of_mk_zero: "mag_of (mk_float s 0) = 0"
  using mag_of_mk_float [of 0 s] by simp

lemma finite_not_nan: "is_finite x \<Longrightarrow> \<not> is_nan x \<and> \<not> is_inf x"
  by (simp add: is_finite_def is_nan_def is_inf_def)

lemma zero_finite: "is_zero x \<Longrightarrow> is_finite x"
  by (simp add: is_finite_def is_zero_def inf_mag_def)

lemma fmul_zero_right: "is_finite x \<Longrightarrow> is_zero y \<Longrightarrow> is_zero (fmul x y)"
  using finite_not_nan [of x] finite_not_nan [of y] zero_finite [of y]
  by (simp add: fmul_def is_zero_def mant_zero round_mag_zero mag_of_mk_zero)

lemma fadd_zero_arg: "\<not> is_nan x \<Longrightarrow> \<not> is_zero x \<Longrightarrow> is_zero z \<Longrightarrow> fadd x z = x"
  using finite_not_nan [of z] zero_finite [of z] by (simp add: fadd_def)

lemma zero_fabs: "is_zero (fabs x) = is_zero x"
  by (simp add: is_zero_def mag_of_fabs)

lemma smallest_not_zero: "\<not> is_zero SmallestNonzeroFloat64"
  by (simp add: SmallestNonzeroFloat64_def is_zero_def mag_of_def)

section \<open>Construction and reading\<close>

text \<open>
  C8: for every float64 \<open>v\<close>, reading a freshly constructed scalar,
  \<open>NewFloat64Pred(v).GetValues()\<close>, returns exactly the pair \<open>(v, 0)\<close>.
\<close>

theorem C8_zero_construction: "GetValues (NewFloat64Pred v) = (v, 0)"
  by (simp add: GetValues_def NewFloat64Pred_def)

section \<open>Adding and subtracting a number\<close>

text \<open>
  C5: for every scalar \<open>s\<close> and float64 \<open>f\<close>, \<open>AddFloat64\<close> returns the value \<open>s.n + f\<close> and
  \<open>SubFloat64\<close> the value \<open>s.n - f\<close>, and both return the error bound
  \<open>s.e + increment(value')\<close>, where \<open>increment\<close> is the rounding-increment rule. In
  particular \<open>NewFloat64Pred(0).AddFloat64(f)\<close> with \<open>f != 0\<close> has the error bound
  \<open>macheps * |f| / (1 - macheps)\<close>, and \<open>NewFloat64Pred(5.0).SubFloat64(5.0)\<close> has value 0 and
  error bound \<open>SmallestNonzeroFloat64\<close>. (For a NaN \<open>f\<close> both sides of the third equation are
  the same NaN.)
\<close>

theorem C5_scalar_add_sub:
  "AddFloat64 s f = \<lparr>n = fadd (n s) f, e = fadd (e s) (increment (fadd (n s) f))\<rparr> \<and>
   SubFloat64 s f = \<lparr>n = fsub (n s) f, e = fadd (e s) (increment (fsub (n s) f))\<rparr> \<and>
   (\<not> is_zero f \<longrightarrow>
      e (AddFloat64 (NewFloat64Pred 0) f) = fdiv (fmul macheps (fabs f)) one_minus_macheps) \<and>
   SubFloat64 (NewFloat64Pred 0x4014000000000000) 0x4014000000000000 =
     \<lparr>n = 0, e = SmallestNonzeroFloat64\<rparr>"
proof -
  have "SubFloat64 (NewFloat64Pred 0x4014000000000000) 0x4014000000000000 =
     \<lparr>n = 0, e = SmallestNonzeroFloat64\<rparr>"
    by code_simp
  then show ?thesis using AddFloat64_eq SubFloat64_eq add_zero_scalar by blast
qed

text \<open>
  Witness of C5 at \<open>f = 3.0\<close>, the specification's concrete case: the value is 3.0 and the
  error bound is \<open>0x3CC8000000000002\<close>, about \<open>6.66133814775094e-16\<close>.
\<close>

theorem C5_scalar_add_sub_witness:
  "\<not> is_zero 0x4008000000000000 \<and>
   AddFloat64 (NewFloat64Pred 0) 0x4008000000000000 =
     \<lparr>n = 0x4008000000000000, e = 0x3CC8000000000002\<rparr>"
proof -
  have h: "\<not> is_zero 0x4008000000000000" by code_simp
  have v: "fdiv (fmul macheps (fabs 0x4008000000000000)) one_minus_macheps = 0x3CC8000000000002"
    by code_simp
  have w: "fadd 0 0x4008000000000000 = 0x4008000000000000" by code_simp
  note c5 = C5_scalar_add_sub [of "NewFloat64Pred 0" "0x4008000000000000"]
  have t: "e (AddFloat64 (NewFloat64Pred 0) 0x4008000000000000) = 0x3CC8000000000002"
    using c5 [THEN conjunct2, THEN conjunct2, THEN conjunct1] h v by simp
  have u: "n (AddFloat64 (NewFloat64Pred 0) 0x4008000000000000) = 0x4008000000000000"
    using c5 [THEN conjunct1] w by (simp add: NewFloat64Pred_def)
  show ?thesis using h t u by (cases "AddFloat64 (NewFloat64Pred 0) 0x4008000000000000") simp
qed

section \<open>Adding and subtracting a scalar\<close>

text \<open>
  C4, as the specification states it, fails: with \<open>a = NewFloat64Pred(0).AddFloat64(7.0)\<close> and
  \<open>b = NewFloat64Pred(0).AddFloat64(12.0)\<close>, \<open>a.AddFloat64Pred(b)\<close> has the error bound
  \<open>0x3D03000000000001\<close>, while \<open>a.e + b.e + increment(19.0)\<close> is \<open>0x3D03000000000002\<close>: float64
  addition is not associative, and the code adds \<open>b.e\<close> to the increment first.
\<close>

theorem C4_counterexample:
  "e (AddFloat64Pred (AddFloat64 (NewFloat64Pred 0) 0x401C000000000000)
                     (AddFloat64 (NewFloat64Pred 0) 0x4028000000000000))
   \<noteq> spec_AddTracked_bound (AddFloat64 (NewFloat64Pred 0) 0x401C000000000000)
                            (AddFloat64 (NewFloat64Pred 0) 0x4028000000000000)"
proof -
  have a: "AddFloat64 (NewFloat64Pred 0) 0x401C000000000000 =
      \<lparr>n = 0x401C000000000000, e = 0x3CDC000000000002\<rparr>" by code_simp
  have b: "AddFloat64 (NewFloat64Pred 0) 0x4028000000000000 =
      \<lparr>n = 0x4028000000000000, e = 0x3CE8000000000002\<rparr>" by code_simp
  have c: "e (AddFloat64Pred \<lparr>n = 0x401C000000000000, e = 0x3CDC000000000002\<rparr>
                             \<lparr>n = 0x4028000000000000, e = 0x3CE8000000000002\<rparr>)
      = 0x3D03000000000001" by code_simp
  have d: "spec_AddTracked_bound \<lparr>n = 0x401C000000000000, e = 0x3CDC000000000002\<rparr>
                             \<lparr>n = 0x4028000000000000, e = 0x3CE8000000000002\<rparr>
      = 0x3D03000000000002" by code_simp
  show ?thesis unfolding a b c d by simp
qed

text \<open>
  C4, amended: for every pair of scalars \<open>a\<close> and \<open>b\<close>, \<open>AddFloat64Pred\<close> returns the value
  \<open>a.n + b.n\<close> and \<open>SubFloat64Pred\<close> the value \<open>a.n - b.n\<close>, and both return the error bound
  \<open>a.e + (increment(value') + b.e)\<close>, the float64 additions grouped in this way.
\<close>

theorem C4_tracked_add_sub:
  "AddFloat64Pred a b =
     \<lparr>n = fadd (n a) (n b), e = fadd (e a) (fadd (increment (fadd (n a) (n b))) (e b))\<rparr> \<and>
   SubFloat64Pred a b =
     \<lparr>n = fsub (n a) (n b), e = fadd (e a) (fadd (increment (fsub (n a) (n b))) (e b))\<rparr>"
  using AddFloat64Pred_eq SubFloat64Pred_eq by blast

section \<open>Multiplying\<close>

text \<open>
  C3 at the specification's end-to-end scenario: \<open>NewFloat64Pred(1.0).AddFloat64(2.0)\<close> is
  \<open>(3.0, 0x3CC8000000000002)\<close>, and \<open>MulFloat64Pred(2.0)\<close> of it returns the value 6.0 with the
  error bound \<open>0x3CEE000000000002\<close>, about \<open>3.33e-15\<close>, where the claimed
  \<open>previous * 2 + macheps * 6 / (1 - macheps)\<close> is \<open>0x3CE8000000000002\<close>, about \<open>2.66e-15\<close>: the
  \<open>+=\<close> of the code adds the previous bound once more.
\<close>

theorem C3_mul_scalar_end_to_end:
  "MulFloat64Pred (AddFloat64 (NewFloat64Pred 0x3FF0000000000000) 0x4000000000000000)
                  0x4000000000000000 =
     \<lparr>n = 0x4018000000000000, e = 0x3CEE000000000002\<rparr> \<and>
   spec_MulScalar_bound (AddFloat64 (NewFloat64Pred 0x3FF0000000000000) 0x4000000000000000)
                  0x4000000000000000 = 0x3CE8000000000002"
proof -
  have a: "AddFloat64 (NewFloat64Pred 0x3FF0000000000000) 0x4000000000000000 =
      \<lparr>n = 0x4008000000000000, e = 0x3CC8000000000002\<rparr>" by code_simp
  have b: "MulFloat64Pred \<lparr>n = 0x4008000000000000, e = 0x3CC8000000000002\<rparr> 0x4000000000000000 =
      \<lparr>n = 0x4018000000000000, e = 0x3CEE000000000002\<rparr>" by code_simp
  have c: "spec_MulScalar_bound \<lparr>n = 0x4008000000000000, e = 0x3CC8000000000002\<rparr>
      0x4000000000000000 = 0x3CE8000000000002" by code_simp
  show ?thesis unfolding a b c by simp
qed

text \<open>
  C2 at the specification's cross-term example, \<open>a = NewFloat64Pred(0).AddFloat64(2.0)\<close> and
  \<open>b = NewFloat64Pred(3.0)\<close>: \<open>a.MulFloat64(b)\<close> returns the value 6.0 with the error bound
  \<open>0x3CEC000000000002\<close>, where the claimed \<open>a.e * 3 + increment(6.0)\<close> is \<open>0x3CE8000000000002\<close>.
  With the operands exchanged, \<open>NewFloat64Pred(2.0).MulFloat64(NewFloat64Pred(0).AddFloat64(3.0))\<close>
  returns the error bound \<open>0x3CF8000000000002\<close>: the code scales \<open>b.e\<close> by the product 6.0 that
  it has already stored in \<open>a.n\<close>, not by the operand's value 2.0.
\<close>

theorem C2_mul_tracked_cross_term:
  "MulFloat64 (AddFloat64 (NewFloat64Pred 0) 0x4000000000000000)
              (NewFloat64Pred 0x4008000000000000) =
     \<lparr>n = 0x4018000000000000, e = 0x3CEC000000000002\<rparr> \<and>
   spec_MulTracked_bound (AddFloat64 (NewFloat64Pred 0) 0x4000000000000000)
              (NewFloat64Pred 0x4008000000000000) = 0x3CE8000000000002 \<and>
   MulFloat64 (NewFloat64Pred 0x4000000000000000)
              (AddFloat64 (NewFloat64Pred 0) 0x4008000000000000) =
     \<lparr>n = 0x4018000000000000, e = 0x3CF8000000000002\<rparr> \<and>
   spec_MulTracked_bound (NewFloat64Pred 0x4000000000000000)
              (AddFloat64 (NewFloat64Pred 0) 0x4008000000000000) = 0x3CE8000000000002"
proof -
  have a: "AddFloat64 (NewFloat64Pred 0) 0x4000000000000000 =
      \<lparr>n = 0x4000000000000000, e = 0x3CC0000000000001\<rparr>" by code_simp
  have b: "AddFloat64 (NewFloat64Pred 0) 0x4008000000000000 =
      \<lparr>n = 0x4008000000000000, e = 0x3CC8000000000002\<rparr>" by code_simp
  have c: "MulFloat64 \<lparr>n = 0x4000000000000000, e = 0x3CC0000000000001\<rparr>
      (NewFloat64Pred 0x4008000000000000) =
      \<lparr>n = 0x4018000000000000, e = 0x3CEC000000000002\<rparr>" by code_simp
  have d: "spec_MulTracked_bound \<lparr>n = 0x4000000000000000, e = 0x3CC0000000000001\<rparr>
      (NewFloat64Pred 0x4008000000000000) = 0x3CE8000000000002" by code_simp
  have f: "MulFloat64 (NewFloat64Pred 0x4000000000000000)
      \<lparr>n = 0x4008000000000000, e = 0x3CC8000000000002\<rparr> =
      \<lparr>n = 0x4018000000000000, e = 0x3CF8000000000002\<rparr>" by code_simp
  have g: "spec_MulTracked_bound (NewFloat64Pred 0x4000000000000000)
      \<lparr>n = 0x4008000000000000, e = 0x3CC8000000000002\<rparr> = 0x3CE8000000000002" by code_simp
  show ?thesis unfolding a b c d f g by simp
qed

section \<open>Soundness of the bound\<close>

text \<open>
  C1 at \<open>NewFloat64Pred(x).MulFloat64Pred(0.5)\<close> with \<open>x = 3 * 2 ^ -1074\<close> (the float of pattern
  3): the exact product \<open>1.5 * 2 ^ -1074\<close> is no float, the stored value is \<open>2 * 2 ^ -1074\<close>
  and the stored error bound is 0, because \<open>macheps * |value|\<close> underflows to 0. In units of
  \<open>2 ^ -2148\<close>, the bound is \<open>units e * 2 ^ 1074\<close>, the stored value \<open>units n * 2 ^ 1074\<close> and
  the exact product \<open>units x * units 0.5\<close>: the distance of the stored value from the exact
  product is greater than the bound.
\<close>

theorem C1_underflow_bound_too_small:
  "MulFloat64Pred (NewFloat64Pred 0x0000000000000003) 0x3FE0000000000000 =
     \<lparr>n = 0x0000000000000002, e = 0\<rparr> \<and>
   is_finite 0x0000000000000003 \<and> is_finite 0x3FE0000000000000 \<and>
   units 0 * 2 ^ 1074 <
     \<bar>units 0x0000000000000002 * 2 ^ 1074 - units 0x0000000000000003 * units 0x3FE0000000000000\<bar>"
  by code_simp

section \<open>Sign and growth of the bound\<close>

text \<open>
  C6, as the specification states it, fails: \<open>NewFloat64Pred(2^1000).MulFloat64Pred(2^1000)\<close>
  overflows to the value \<open>+Inf\<close> with the error bound \<open>+Inf\<close>, and \<open>MulFloat64Pred(0)\<close> of it
  has the value \<open>Inf * 0 = NaN\<close> and the error bound NaN, of which \<open>>= 0\<close> is false. All three
  arguments are finite numbers.
\<close>

theorem C6_counterexample:
  "reachable (MulFloat64Pred (MulFloat64Pred (NewFloat64Pred 0x7E70000000000000)
                                0x7E70000000000000) 0) \<and>
   is_nan (e (MulFloat64Pred (MulFloat64Pred (NewFloat64Pred 0x7E70000000000000)
                                0x7E70000000000000) 0)) \<and>
   \<not> fge (e (MulFloat64Pred (MulFloat64Pred (NewFloat64Pred 0x7E70000000000000)
                                0x7E70000000000000) 0)) 0"
proof -
  have r: "reachable (MulFloat64Pred (MulFloat64Pred (NewFloat64Pred 0x7E70000000000000)
                                0x7E70000000000000) 0)"
    by (intro reachable.intros)
  have a: "MulFloat64Pred (NewFloat64Pred 0x7E70000000000000) 0x7E70000000000000 =
      \<lparr>n = 0x7FF0000000000000, e = 0x7FF0000000000000\<rparr>" by code_simp
  have b: "e (MulFloat64Pred \<lparr>n = 0x7FF0000000000000, e = 0x7FF0000000000000\<rparr> 0) = qnan"
    by code_simp
  show ?thesis using r unfolding a b by (simp add: is_nan_qnan fge_def)
qed

text \<open>
  C6, amended: the error bound of every reachable scalar is either a NaN or \<open>>= 0\<close>; it is
  never negative.
\<close>

theorem C6_nonneg_unless_nan:
  "reachable s \<Longrightarrow> is_nan (e s) \<or> fge (e s) 0"
proof -
  assume "reachable s"
  then have "is_nan (e s) \<or> \<not> sign_of (e s)" by (rule reachable_sign)
  then show ?thesis using mag_of_range [of "e s"]
    by (auto simp add: fge_def fkey_def not_nan_zero sign_of_zero mag_of_zero)
qed

text \<open>
  Witness of C6 at \<open>NewFloat64Pred(1.0).AddFloat64(2.0)\<close>, whose error bound is not a NaN.
\<close>

theorem C6_nonneg_unless_nan_witness:
  "reachable (AddFloat64 (NewFloat64Pred 0x3FF0000000000000) 0x4000000000000000) \<and>
   \<not> is_nan (e (AddFloat64 (NewFloat64Pred 0x3FF0000000000000) 0x4000000000000000)) \<and>
   fge (e (AddFloat64 (NewFloat64Pred 0x3FF0000000000000) 0x4000000000000000)) 0"
proof -
  have r: "reachable (AddFloat64 (NewFloat64Pred 0x3FF0000000000000) 0x4000000000000000)"
    by (intro reachable.intros)
  have v: "\<not> is_nan (e (AddFloat64 (NewFloat64Pred 0x3FF0000000000000) 0x4000000000000000))"
    by code_simp
  show ?thesis using r v C6_nonneg_unless_nan [OF r] by simp
qed

text \<open>
  C7, as the specification states it, fails: \<open>s = NewFloat64Pred(2^1000).MulFloat64Pred(2^1000)\<close>
  has the error bound \<open>+Inf\<close>, and \<open>s.MulFloat64Pred(0)\<close> has the error bound NaN, which is not
  \<open>>= +Inf\<close>.
\<close>

theorem C7_counterexample:
  "reachable (MulFloat64Pred (NewFloat64Pred 0x7E70000000000000) 0x7E70000000000000) \<and>
   e (MulFloat64Pred (NewFloat64Pred 0x7E70000000000000) 0x7E70000000000000) =
     0x7FF0000000000000 \<and>
   \<not> fge (e (MulFloat64Pred
              (MulFloat64Pred (NewFloat64Pred 0x7E70000000000000) 0x7E70000000000000) 0))
          (e (MulFloat64Pred (NewFloat64Pred 0x7E70000000000000) 0x7E70000000000000))"
proof -
  have r: "reachable (MulFloat64Pred (NewFloat64Pred 0x7E70000000000000) 0x7E70000000000000)"
    by (intro reachable.intros)
  have a: "MulFloat64Pred (NewFloat64Pred 0x7E70000000000000) 0x7E70000000000000 =
      \<lparr>n = 0x7FF0000000000000, e = 0x7FF0000000000000\<rparr>" by code_simp
  have b: "e (MulFloat64Pred \<lparr>n = 0x7FF0000000000000, e = 0x7FF0000000000000\<rparr> 0) = qnan"
    by code_simp
  show ?thesis using r unfolding a b by (simp add: is_nan_qnan fge_def)
qed

text \<open>
  C7, amended: for every reachable scalar \<open>s\<close>, every float64 \<open>f\<close> and every reachable scalar
  \<open>b\<close>, each of the six operations applied to \<open>s\<close> returns a scalar whose error bound is a
  NaN or \<open>>=\<close> the error bound of \<open>s\<close>; hence so does every finite sequence of operations
  applied to \<open>s\<close> whose scalar operands are reachable.
\<close>

theorem C7_monotone_unless_nan:
  assumes "reachable s" and "reachable b" and "list_all operand_ok ops"
  shows "(\<forall>s' \<in> {AddFloat64 s f, SubFloat64 s f, AddFloat64Pred s b, SubFloat64Pred s b,
                 MulFloat64Pred s f, MulFloat64 s b}. is_nan (e s') \<or> fge (e s') (e s)) \<and>
         (is_nan (e (run s ops)) \<or> fge (e (run s ops)) (e s))"
  using step_ge_scalar [OF reachable_sign [OF assms(1)]]
    step_ge_tracked [OF reachable_sign [OF assms(1)] reachable_sign [OF assms(2)]]
    run_ge [OF assms(1) assms(3)] by simp

text \<open>
  Witness of C7 at \<open>s = NewFloat64Pred(1.0)\<close>, \<open>b = NewFloat64Pred(0).AddFloat64(3.0)\<close> and the
  sequence \<open>AddFloat64(2.0)\<close>, \<open>MulFloat64Pred(2.0)\<close>: no error bound is a NaN, so each is
  \<open>>=\<close> the error bound 0 of \<open>s\<close>.
\<close>

theorem C7_monotone_unless_nan_witness:
  "reachable (NewFloat64Pred 0x3FF0000000000000) \<and>
   reachable (AddFloat64 (NewFloat64Pred 0) 0x4008000000000000) \<and>
   list_all operand_ok [AddScalar 0x4000000000000000, MulScalar 0x4000000000000000] \<and>
   fge (e (MulFloat64 (NewFloat64Pred 0x3FF0000000000000)
                      (AddFloat64 (NewFloat64Pred 0) 0x4008000000000000)))
       (e (NewFloat64Pred 0x3FF0000000000000)) \<and>
   fge (e (run (NewFloat64Pred 0x3FF0000000000000)
               [AddScalar 0x4000000000000000, MulScalar 0x4000000000000000]))
       (e (NewFloat64Pred 0x3FF0000000000000))"
proof -
  have r: "reachable (NewFloat64Pred 0x3FF0000000000000)" by (intro reachable.intros)
  have b: "reachable (AddFloat64 (NewFloat64Pred 0) 0x4008000000000000)"
    by (intro reachable.intros)
  have ok: "list_all operand_ok [AddScalar 0x4000000000000000, MulScalar 0x4000000000000000]"
    by simp
  have v: "\<not> is_nan (e (MulFloat64 (NewFloat64Pred 0x3FF0000000000000)
                      (AddFloat64 (NewFloat64Pred 0) 0x4008000000000000)))"
    by code_simp
  have w: "\<not> is_nan (e (run (NewFloat64Pred 0x3FF0000000000000)
               [AddScalar 0x4000000000000000, MulScalar 0x4000000000000000]))"
    by code_simp
  show ?thesis
    using r b ok v w C7_monotone_unless_nan [OF r b ok, of "0x4000000000000000"] by simp
qed

section \<open>Chained multiplication\<close>

text \<open>
  C9 at \<open>n = 5 * 2 ^ -1074\<close> (the float of pattern 5), \<open>a = 0.5\<close>, \<open>b = 2 ^ 200\<close>: the claim
  says that the error bound of \<open>NewFloat64Pred(n).MulFloat64Pred(a).MulFloat64Pred(b)\<close> is
  \<open>>=\<close> the error bound of \<open>NewFloat64Pred(n).MulFloat64Pred(a * b)\<close>. Here the first product
  \<open>n * a = 2.5 * 2 ^ -1074\<close> is rounded to \<open>2 * 2 ^ -1074\<close> and stored with the error bound 0,
  the underflow of \<open>macheps * |value|\<close> shown for C1. The chained value is then \<open>2 ^ -873\<close> with
  the error bound \<open>0x0620000000000001\<close>, about \<open>3.53e-279\<close>, while the single step has the value
  \<open>2.5 * 2 ^ -874\<close> and the error bound \<open>0x0624000000000001\<close>, about \<open>4.41e-279\<close>: the chained
  bound is the smaller one.
\<close>

theorem C9_chained_bound_smaller:
  "MulFloat64Pred (NewFloat64Pred 0x0000000000000005) 0x3FE0000000000000 =
     \<lparr>n = 0x0000000000000002, e = 0\<rparr> \<and>
   MulFloat64Pred (MulFloat64Pred (NewFloat64Pred 0x0000000000000005) 0x3FE0000000000000)
                  0x4C70000000000000 =
     \<lparr>n = 0x0960000000000000, e = 0x0620000000000001\<rparr> \<and>
   MulFloat64Pred (NewFloat64Pred 0x0000000000000005)
                  (fmul 0x3FE0000000000000 0x4C70000000000000) =
     \<lparr>n = 0x0964000000000000, e = 0x0624000000000001\<rparr> \<and>
   \<not> fge (e (MulFloat64Pred
              (MulFloat64Pred (NewFloat64Pred 0x0000000000000005) 0x3FE0000000000000)
              0x4C70000000000000))
          (e (MulFloat64Pred (NewFloat64Pred 0x0000000000000005)
              (fmul 0x3FE0000000000000 0x4C70000000000000)))"
proof -
  have a: "MulFloat64Pred (NewFloat64Pred 0x0000000000000005) 0x3FE0000000000000 =
      \<lparr>n = 0x0000000000000002, e = 0\<rparr>" by code_simp
  have b: "MulFloat64Pred \<lparr>n = 0x0000000000000002, e = 0\<rparr> 0x4C70000000000000 =
      \<lparr>n = 0x0960000000000000, e = 0x0620000000000001\<rparr>" by code_simp
  have c: "fmul 0x3FE0000000000000 0x4C70000000000000 = 0x4C60000000000000" by code_simp
  have d: "MulFloat64Pred (NewFloat64Pred 0x0000000000000005) 0x4C60000000000000 =
      \<lparr>n = 0x0964000000000000, e = 0x0624000000000001\<rparr>" by code_simp
  have f: "\<not> fge 0x0620000000000001 0x0624000000000001" by code_simp
  show ?thesis unfolding a b c d using f by simp
qed

section \<open>A zero factor\<close>

text \<open>
  C10, as stated, fails: \<open>a = NewFloat64Pred(0).AddFloat64(2^1000).MulFloat64Pred(2^-1000).MulFloat64Pred(2^1000)\<close>
  has the finite value \<open>2 ^ 1000\<close> and the error bound \<open>+Inf\<close>; with \<open>b = NewFloat64Pred(0)\<close>,
  \<open>a.MulFloat64(b)\<close> has the error bound NaN (from \<open>Inf * 0\<close>), not \<open>a.e + SmallestNonzeroFloat64 = +Inf\<close>.
\<close>

theorem C10_counterexample:
  "MulFloat64Pred (MulFloat64Pred (AddFloat64 (NewFloat64Pred 0) 0x7E70000000000000)
                     0x0170000000000000) 0x7E70000000000000 =
     \<lparr>n = 0x7E70000000000000, e = 0x7FF0000000000000\<rparr> \<and>
   is_finite 0x7E70000000000000 \<and> is_zero (n (NewFloat64Pred 0)) \<and>
   e (MulFloat64 \<lparr>n = 0x7E70000000000000, e = 0x7FF0000000000000\<rparr> (NewFloat64Pred 0)) \<noteq>
     fadd 0x7FF0000000000000 SmallestNonzeroFloat64"
proof -
  have a: "AddFloat64 (NewFloat64Pred 0) 0x7E70000000000000 =
      \<lparr>n = 0x7E70000000000000, e = 0x7B30000000000001\<rparr>" by code_simp
  have b: "MulFloat64Pred \<lparr>n = 0x7E70000000000000, e = 0x7B30000000000001\<rparr> 0x0170000000000000 =
      \<lparr>n = 0x3FF0000000000000, e = 0x7B30000000000001\<rparr>" by code_simp
  have c: "MulFloat64Pred \<lparr>n = 0x3FF0000000000000, e = 0x7B30000000000001\<rparr> 0x7E70000000000000 =
      \<lparr>n = 0x7E70000000000000, e = 0x7FF0000000000000\<rparr>" by code_simp
  have d: "e (MulFloat64 \<lparr>n = 0x7E70000000000000, e = 0x7FF0000000000000\<rparr> (NewFloat64Pred 0)) =
      qnan" by code_simp
  have f: "fadd 0x7FF0000000000000 SmallestNonzeroFloat64 = 0x7FF0000000000000" by code_simp
  have g: "is_finite 0x7E70000000000000" "is_zero (n (NewFloat64Pred 0))" by code_simp+
  show ?thesis unfolding a b c d f using g by (simp add: qnan_def)
qed

text \<open>
  C10, amended: for every scalar \<open>a\<close> with a finite value and a finite error bound and every
  scalar \<open>b\<close> with \<open>b.n == 0\<close> and a finite error bound, \<open>a.MulFloat64(b)\<close> has a zero value
  and the error bound \<open>a.e + SmallestNonzeroFloat64\<close>, whatever \<open>b.e\<close> is.
\<close>

theorem C10_zero_product:
  assumes "is_finite (n a)" and "is_zero (n b)" and "is_finite (e a)" and "is_finite (e b)"
  shows "is_zero (n (MulFloat64 a b)) \<and>
         e (MulFloat64 a b) = fadd (e a) SmallestNonzeroFloat64"
proof -
  have z: "is_zero (fmul (n a) (n b))" using assms(1,2) by (rule fmul_zero_right)
  have i: "increment (fmul (n a) (n b)) = SmallestNonzeroFloat64" using z by (simp add: increment_def)
  have z1: "is_zero (fmul (e a) (fabs (n b)))"
    using assms(2,3) by (intro fmul_zero_right) (simp_all add: zero_fabs)
  have z2: "is_zero (fmul (e b) (fabs (fmul (n a) (n b))))"
    using assms(4) z by (intro fmul_zero_right) (simp_all add: zero_fabs)
  have s1: "fadd SmallestNonzeroFloat64 (fmul (e a) (fabs (n b))) = SmallestNonzeroFloat64"
    using nn_smallest smallest_not_zero z1 by (intro fadd_zero_arg) simp_all
  have s2: "fadd SmallestNonzeroFloat64 (fmul (e b) (fabs (fmul (n a) (n b)))) = SmallestNonzeroFloat64"
    using nn_smallest smallest_not_zero z2 by (intro fadd_zero_arg) simp_all
  show ?thesis using z by (simp add: MulFloat64_eq i s1 s2)
qed

text \<open>
  Witness of C10 at \<open>a = NewFloat64Pred(1.0).AddFloat64(2.0)\<close> and
  \<open>b = NewFloat64Pred(0).AddFloat64(5.0).SubFloat64(5.0)\<close>, whose value is 0 and whose error
  bound is not.
\<close>

theorem C10_zero_product_witness:
  "is_finite (n (AddFloat64 (NewFloat64Pred 0x3FF0000000000000) 0x4000000000000000)) \<and>
   is_zero (n (SubFloat64 (AddFloat64 (NewFloat64Pred 0) 0x4014000000000000)
                          0x4014000000000000)) \<and>
   is_finite (e (AddFloat64 (NewFloat64Pred 0x3FF0000000000000) 0x4000000000000000)) \<and>
   is_finite (e (SubFloat64 (AddFloat64 (NewFloat64Pred 0) 0x4014000000000000)
                            0x4014000000000000)) \<and>
   is_zero (n (MulFloat64
      (AddFloat64 (NewFloat64Pred 0x3FF0000000000000) 0x4000000000000000)
      (SubFloat64 (AddFloat64 (NewFloat64Pred 0) 0x4014000000000000) 0x4014000000000000))) \<and>
   e (MulFloat64
      (AddFloat64 (NewFloat64Pred 0x3FF0000000000000) 0x4000000000000000)
      (SubFloat64 (AddFloat64 (NewFloat64Pred 0) 0x4014000000000000) 0x4014000000000000)) =
   fadd (e (AddFloat64 (NewFloat64Pred 0x3FF0000000000000) 0x4000000000000000))
        SmallestNonzeroFloat64"
proof -
  have a: "AddFloat64 (NewFloat64Pred 0x3FF0000000000000) 0x4000000000000000 =
      \<lparr>n = 0x4008000000000000, e = 0x3CC8000000000002\<rparr>" by code_simp
  have b: "AddFloat64 (NewFloat64Pred 0) 0x4014000000000000 =
      \<lparr>n = 0x4014000000000000, e = 0x3CD4000000000001\<rparr>" by code_simp
  have c: "SubFloat64 \<lparr>n = 0x4014000000000000, e = 0x3CD4000000000001\<rparr> 0x4014000000000000 =
      \<lparr>n = 0, e = 0x3CD4000000000001\<rparr>" by code_simp
  have h: "is_finite (n \<lparr>n = 0x4008000000000000, e = 0x3CC8000000000002 :: float64\<rparr>)"
    "is_zero (n \<lparr>n = 0 :: float64, e = 0x3CD4000000000001 :: float64\<rparr>)"
    "is_finite (e \<lparr>n = 0x4008000000000000 :: float64, e = 0x3CC8000000000002\<rparr>)"
    "is_finite (e \<lparr>n = 0 :: float64, e = 0x3CD4000000000001\<rparr>)"
    by code_simp+
  show ?thesis unfolding a b c using h C10_zero_product [OF h] by simp
qed

end
